theory Spec2Isabelle
  imports Main
begin

section \<open>Goedel's System T in TypeScript: the embedding of godel-t.ts\<close>

text \<open>
  The source works on the host type \<open>number\<close>, used as the carrier of the natural
  numbers built from \<open>Zero\<close> and \<open>Succ\<close>. The model takes \<^typ>\<open>nat\<close> as that carrier:
  the recursor only ever computes \<open>sn - 1\<close> under the guard \<open>sn !== Zero\<close>, so the
  truncating subtraction of \<^typ>\<open>nat\<close> is never reached at \<open>0\<close> and every function
  below computes what the TypeScript computes on a natural-number argument.
  A TypeScript function value \<open>(x: number) => number\<close> is a HOL function
  \<^typ>\<open>nat \<Rightarrow> nat\<close>. Each definition follows the source function of the same name;
  \<open>not\<close>, \<open>and\<close>, \<open>or\<close>, \<open>xor\<close> and \<open>divide\<close> carry a suffix because HOL has constants
  of these names.
\<close>

subsection \<open>Numerals, conditional and recursor\<close>

definition Zero :: nat where
  "Zero = 0"

definition Succ :: "nat \<Rightarrow> nat" where
  "Succ x = x + 1"

definition Cases :: "bool \<Rightarrow> 'a \<Rightarrow> 'a \<Rightarrow> 'a" where
  "Cases cond a b = (if cond then a else b)"

function Rec :: "nat \<Rightarrow> 'a \<Rightarrow> (nat \<Rightarrow> 'a \<Rightarrow> 'a) \<Rightarrow> 'a" where
  "Rec sn s t = (if sn = Zero then s else t (sn - 1) (Rec (sn - 1) s t))"
  by pat_completeness auto
termination
  by (relation "measure (\<lambda>(sn, s, t). sn)") (auto simp: Zero_def)

declare Rec.simps [simp del]

subsection \<open>Arithmetic library\<close>

definition add :: "nat \<Rightarrow> nat \<Rightarrow> nat" where
  "add x y = Rec x y (\<lambda>z w. Succ w)"

definition multiply :: "nat \<Rightarrow> nat \<Rightarrow> nat" where
  "multiply x y = Rec y Zero (\<lambda>z w. add x w)"

definition exp :: "nat \<Rightarrow> nat \<Rightarrow> nat" where
  "exp x y = Rec y 1 (\<lambda>z w. multiply x w)"

definition double :: "nat \<Rightarrow> nat" where
  "double x = Rec x Zero (\<lambda>z w. Succ (Succ w))"

definition pred :: "nat \<Rightarrow> nat" where
  "pred x = Rec x Zero (\<lambda>z w. z)"

definition subtract :: "nat \<Rightarrow> nat \<Rightarrow> nat" where
  "subtract x y = Rec y x (\<lambda>z w. pred w)"

definition isZero :: "nat \<Rightarrow> bool" where
  "isZero x = Rec x True (\<lambda>z w. False)"

subsection \<open>Boolean library\<close>

definition not_b :: "bool \<Rightarrow> bool" where
  "not_b x = Cases x False True"

definition and_b :: "bool \<Rightarrow> bool \<Rightarrow> bool" where
  "and_b x y = Cases x y False"

definition or_b :: "bool \<Rightarrow> bool \<Rightarrow> bool" where
  "or_b x y = Cases x True y"

definition xor_b :: "bool \<Rightarrow> bool \<Rightarrow> bool" where
  "xor_b x y = Cases x (not_b y) y"

definition eq :: "nat \<Rightarrow> nat \<Rightarrow> bool" where
  "eq x y = and_b (isZero (subtract x y)) (isZero (subtract y x))"

definition gt :: "nat \<Rightarrow> nat \<Rightarrow> bool" where
  "gt x y = not_b (isZero (subtract x y))"

definition lt :: "nat \<Rightarrow> nat \<Rightarrow> bool" where
  "lt x y = not_b (isZero (subtract y x))"

definition gte :: "nat \<Rightarrow> nat \<Rightarrow> bool" where
  "gte x y = or_b (eq x y) (gt x y)"

definition lte :: "nat \<Rightarrow> nat \<Rightarrow> bool" where
  "lte x y = or_b (eq x y) (lt x y)"

subsection \<open>Remainder, division, primality\<close>

definition remainder :: "nat \<Rightarrow> nat \<Rightarrow> nat" where
  "remainder x y =
     Cases (lt x y)
       Zero
       (Rec x Zero (\<lambda>z w. Cases (eq (pred y) w) Zero (Succ w)))"

definition divide_t :: "nat \<Rightarrow> nat \<Rightarrow> nat" where
  "divide_t x y =
     Cases (lt x y)
       Zero
       (Rec x 1 (\<lambda>z w. Cases (eq (pred y) (remainder z y)) (Succ w) w))"

definition isPrime :: "nat \<Rightarrow> bool" where
  "isPrime x =
     Cases (eq x 1)
       True
       (eq 2 (Rec x Zero (\<lambda>z w. Cases (isZero (remainder x z)) (Succ w) w)))"

subsection \<open>Function iteration and the Ackermann construction\<close>

definition compose :: "(nat \<Rightarrow> nat) \<Rightarrow> (nat \<Rightarrow> nat) \<Rightarrow> (nat \<Rightarrow> nat)" where
  "compose f g = (\<lambda>x. f (g x))"

definition iterate :: "(nat \<Rightarrow> nat) \<Rightarrow> nat \<Rightarrow> (nat \<Rightarrow> nat)" where
  "iterate f n = Rec n (\<lambda>x. x) (\<lambda>z w. compose f w)"

definition ackermann :: "nat \<Rightarrow> (nat \<Rightarrow> nat)" where
  "ackermann x = Rec x Succ (\<lambda>z w. iterate w (w (Succ Zero)))"

section \<open>What the recursor library computes\<close>

text \<open>
  The two reductions of the recursor on constructor forms, and from them the arithmetic
  meaning of every library function. These are the facts the later sections rest on.
\<close>

lemma Rec_0: "Rec 0 s t = s"
  by (simp add: Rec.simps Zero_def)

lemma Rec_Suc: "Rec (Suc n) s t = t n (Rec n s t)"
  by (simp add: Rec.simps [of "Suc n"] Zero_def)

lemma add_plus: "add x y = x + y"
  unfolding add_def by (induction x) (simp_all add: Rec_0 Rec_Suc Succ_def)

lemma multiply_times: "multiply x y = x * y"
  unfolding multiply_def by (induction y) (simp_all add: Rec_0 Rec_Suc Zero_def add_plus)

lemma pred_minus: "pred x = x - 1"
  unfolding pred_def by (cases x) (simp_all add: Rec_0 Rec_Suc Zero_def)

lemma subtract_minus: "subtract x y = x - y"
  unfolding subtract_def by (induction y) (simp_all add: Rec_0 Rec_Suc pred_minus)

lemma isZero_iff: "isZero x = (x = 0)"
  unfolding isZero_def by (cases x) (simp_all add: Rec_0 Rec_Suc)

lemma eq_iff: "eq x y = (x = y)"
  by (auto simp: eq_def and_b_def Cases_def isZero_iff subtract_minus)

lemma lt_iff: "lt x y = (x < y)"
  by (auto simp: lt_def not_b_def Cases_def isZero_iff subtract_minus)

lemma rem_loop: "0 < y \<Longrightarrow> Rec n Zero (\<lambda>z w. Cases (eq (pred y) w) Zero (Succ w)) = n mod y"
proof (induction n)
  case 0
  show ?case by (simp add: Rec_0 Zero_def)
next
  case (Suc n)
  then show ?case
    by (auto simp: Rec_Suc Cases_def eq_iff pred_minus Zero_def Succ_def mod_Suc)
qed

lemma rem_loop_zero: "Rec n Zero (\<lambda>z w. Cases (eq (pred 0) w) Zero (Succ w)) = 0"
  by (induction n) (simp_all add: Rec_0 Rec_Suc Cases_def eq_iff pred_minus Zero_def)

lemma remainder_char: "remainder x y = (if x < y \<or> y = 0 then 0 else x mod y)"
proof (cases "y = 0")
  case True
  have "remainder x 0 = Cases (lt x 0) Zero 0"
    unfolding remainder_def rem_loop_zero ..
  with True show ?thesis by (simp add: Cases_def lt_iff)
next
  case False
  then have "remainder x y = Cases (lt x y) Zero (x mod y)"
    unfolding remainder_def by (simp only: rem_loop)
  with False show ?thesis by (simp add: Cases_def lt_iff Zero_def)
qed

lemma div_loop:
  assumes "2 \<le> y"
  shows "Rec n 1 (\<lambda>z w. Cases (eq (pred y) (remainder z y)) (Succ w) w) = (if n < y then 1 else n div y)"
proof (induction n)
  case 0
  from assms show ?case by (simp add: Rec_0)
next
  case (Suc n)
  show ?case
  proof (cases "n < y")
    case True
    have "Suc n div y = 1" if "\<not> Suc n < y"
    proof -
      from True that have "Suc n = y" by simp
      with assms show ?thesis by simp
    qed
    with True assms Suc show ?thesis
      by (auto simp: Rec_Suc Cases_def eq_iff pred_minus remainder_char Succ_def)
  next
    case False
    with assms Suc show ?thesis
      by (auto simp: Rec_Suc Cases_def eq_iff pred_minus remainder_char Succ_def div_Suc mod_Suc)
  qed
qed

lemma divide_char:
  assumes "2 \<le> y"
  shows "divide_t x y = x div y"
proof -
  have "divide_t x y = Cases (lt x y) Zero (if x < y then 1 else x div y)"
    unfolding divide_t_def by (simp only: div_loop [OF assms])
  then show ?thesis by (simp add: Cases_def lt_iff Zero_def)
qed

lemma div_loop_zero: "Rec n 1 (\<lambda>z w. Cases (eq (pred 0) (remainder z 0)) (Succ w) w) = n + 1"
  by (induction n) (simp_all add: Rec_0 Rec_Suc Cases_def eq_iff pred_minus remainder_char Succ_def)

lemma div_loop_one: "Rec n 1 (\<lambda>z w. Cases (eq (pred 1) (remainder z 1)) (Succ w) w) = n + 1"
  by (induction n) (simp_all add: Rec_0 Rec_Suc Cases_def eq_iff pred_minus remainder_char Succ_def)

text \<open>
  With divisor \<open>1\<close> every \<open>z\<close> below \<open>x\<close> has remainder \<open>0 = pred 1\<close>, so the loop of
  \<open>divide\<close> counts all of them on top of its base \<open>1\<close>.
\<close>

lemma divide_by_one: "0 < x \<Longrightarrow> divide_t x 1 = x + 1"
proof -
  assume "0 < x"
  have "divide_t x 1 = Cases (lt x 1) Zero (x + 1)"
    unfolding divide_t_def div_loop_one ..
  with \<open>0 < x\<close> show ?thesis by (simp add: Cases_def lt_iff)
qed

lemma iterate_funpow: "iterate f n = f ^^ n"
  unfolding iterate_def by (induction n) (simp_all add: Rec_0 Rec_Suc compose_def fun_eq_iff)

lemma ackermann_0: "ackermann 0 = Succ"
  by (simp add: ackermann_def Rec_0)

lemma ackermann_Suc: "ackermann (Suc m) = iterate (ackermann m) (ackermann m (Succ Zero))"
  by (simp add: ackermann_def Rec_Suc)

subsection \<open>The divisor count of \<open>isPrime\<close>\<close>

lemma count_loop:
  "Rec n Zero (\<lambda>z w. Cases (isZero (remainder x z)) (Succ w) w) = card {z. z < n \<and> remainder x z = 0}"
proof (induction n)
  case 0
  show ?case by (simp add: Rec_0 Zero_def)
next
  case (Suc n)
  let ?S = "{z. z < n \<and> remainder x z = 0}"
  have fin: "finite ?S" by simp
  have new: "n \<notin> ?S" by simp
  show ?case
  proof (cases "remainder x n = 0")
    case True
    then have "{z. z < Suc n \<and> remainder x z = 0} = insert n ?S"
      by (auto simp: less_Suc_eq)
    with fin new True Suc show ?thesis
      by (simp add: Rec_Suc Cases_def isZero_iff Succ_def)
  next
    case False
    then have "{z. z < Suc n \<and> remainder x z = 0} = ?S"
      by (auto simp: less_Suc_eq)
    with False Suc show ?thesis
      by (simp add: Rec_Suc Cases_def isZero_iff)
  qed
qed

lemma zero_remainders:
  assumes "2 \<le> x"
  shows "{z. z < x \<and> remainder x z = 0} = {0, 1} \<union> {d. 2 \<le> d \<and> d < x \<and> d dvd x}"
proof (rule set_eqI)
  fix z
  show "z \<in> {z. z < x \<and> remainder x z = 0} \<longleftrightarrow> z \<in> {0, 1} \<union> {d. 2 \<le> d \<and> d < x \<and> d dvd x}"
  proof (cases "z < 2")
    case True
    then have "z = 0 \<or> z = 1" by auto
    with assms show ?thesis by (auto simp: remainder_char)
  next
    case False
    then show ?thesis by (auto simp: remainder_char mod_eq_0_iff_dvd)
  qed
qed

lemma count_divisors:
  assumes "2 \<le> x"
  shows "Rec x Zero (\<lambda>z w. Cases (isZero (remainder x z)) (Succ w) w) = 2 + card {d. 2 \<le> d \<and> d < x \<and> d dvd x}"
proof -
  let ?D = "{d. 2 \<le> d \<and> d < x \<and> d dvd x}"
  have "finite ?D" by simp
  moreover have "{0, 1} \<inter> ?D = {}" by auto
  ultimately have "card ({0, 1} \<union> ?D) = card {0::nat, 1} + card ?D"
    by (intro card_Un_disjoint) simp_all
  then show ?thesis
    by (simp add: count_loop zero_remainders [OF assms])
qed

lemma isPrime_char:
  assumes "2 \<le> x"
  shows "isPrime x = (\<forall>d. 2 \<le> d \<and> d < x \<longrightarrow> \<not> d dvd x)"
proof -
  let ?D = "{d. 2 \<le> d \<and> d < x \<and> d dvd x}"
  have fin: "finite ?D" by simp
  have "isPrime x = Cases (eq x 1) True (eq 2 (2 + card ?D))"
    unfolding isPrime_def count_divisors [OF assms] ..
  also from assms have "\<dots> = eq 2 (2 + card ?D)"
    by (simp add: Cases_def eq_iff)
  also have "\<dots> = (card ?D = 0)" by (simp add: eq_iff)
  also from fin have "\<dots> = (?D = {})" by simp
  also have "\<dots> = (\<forall>d. 2 \<le> d \<and> d < x \<longrightarrow> \<not> d dvd x)" by auto
  finally show ?thesis .
qed

lemma no_divisor_127: "\<forall>d\<in>{2..<127::nat}. \<not> d dvd 127"
  by code_simp

section \<open>The recursor\<close>

text \<open>
  Claim C3. The recursor satisfies its defining contract: for every base value and step
  function, \<open>Rec(0, base, step)\<close> is \<open>base\<close>, and for every \<open>n > 0\<close>,
  \<open>Rec(n, base, step)\<close> is \<open>step(n - 1, Rec(n - 1, base, step))\<close>.
\<close>

theorem Rec_contract:
  "Rec 0 base step = base
   \<and> (0 < n \<longrightarrow> Rec n base step = step (n - 1) (Rec (n - 1) base step))"
  by (simp add: Rec.simps [of n] Rec.simps [of 0] Zero_def)

theorem Rec_contract_witness:
  "(0::nat) < 3 \<and> Rec 0 (5::nat) (\<lambda>z w. z + w) = 5
   \<and> Rec 3 (5::nat) (\<lambda>z w. z + w) = 2 + Rec 2 5 (\<lambda>z w. z + w)"
  using Rec_contract [of "5::nat" "\<lambda>z w. z + w" 3] by simp

section \<open>Arithmetic\<close>

text \<open>
  Claim C6. \<open>add\<close> and \<open>multiply\<close> are commutative and associative on all natural
  numbers \<open>a\<close>, \<open>b\<close>, \<open>c\<close>.
\<close>

theorem add_multiply_comm_assoc:
  "add a b = add b a
   \<and> add (add a b) c = add a (add b c)
   \<and> multiply a b = multiply b a
   \<and> multiply (multiply a b) c = multiply a (multiply b c)"
  by (simp add: add_plus multiply_times)

text \<open>
  Claim C4. Subtraction is truncated: \<open>subtract(a, b)\<close> is \<open>0\<close> whenever \<open>a \<le> b\<close>,
  \<open>subtract(a, 0)\<close> is \<open>a\<close>, and \<open>subtract\<close> and \<open>pred\<close> never go below zero: read as
  integers, their results are the integer differences \<open>a - b\<close> and \<open>a - 1\<close> cut off
  at \<open>0\<close>.
\<close>

theorem subtract_pred_truncated:
  "(a \<le> b \<longrightarrow> subtract a b = 0)
   \<and> subtract a 0 = a
   \<and> int (subtract a b) = max 0 (int a - int b)
   \<and> int (pred a) = max 0 (int a - 1)"
  by (auto simp: subtract_minus pred_minus)

theorem subtract_pred_truncated_witness:
  "(2::nat) \<le> 3 \<and> subtract 2 3 = 0 \<and> subtract 2 0 = 2
   \<and> int (subtract 2 3) = 0 \<and> int (pred 2) = 1"
  using subtract_pred_truncated [of 2 3] by simp

section \<open>Remainder and division\<close>

text \<open>
  Claim C9. Division by zero has a definite result: \<open>lt(x, 0)\<close> is false, so both
  functions take their recursive branch, where \<open>eq(pred(0), remainder(z, 0))\<close> holds at
  every step; hence \<open>remainder(x, 0)\<close> is \<open>0\<close> and \<open>divide(x, 0)\<close> is \<open>x + 1\<close>.
\<close>

theorem division_by_zero:
  "\<not> lt x 0 \<and> eq (pred 0) (remainder z 0)
   \<and> remainder x 0 = 0 \<and> divide_t x 0 = x + 1"
proof -
  have "divide_t x 0 = Cases (lt x 0) Zero (x + 1)"
    unfolding divide_t_def div_loop_zero ..
  then show ?thesis
    by (simp add: Cases_def lt_iff eq_iff pred_minus remainder_char)
qed

text \<open>
  Claim C1, as stated: for all natural numbers \<open>a\<close> and \<open>b\<close> with \<open>b > 0\<close>,
  \<open>a\<close> equals \<open>add(multiply(divide(a, b), b), remainder(a, b))\<close>. It fails at
  \<open>a = 1\<close>, \<open>b = 2\<close>: the guard \<open>lt(x, y)\<close> makes both \<open>divide(1, 2)\<close> and
  \<open>remainder(1, 2)\<close> zero, so the right-hand side is \<open>0\<close>.
\<close>

theorem divide_remainder_relation_counterexample:
  "(0::nat) < 2 \<and> (1::nat) \<noteq> add (multiply (divide_t 1 2) 2) (remainder 1 2)"
  by code_simp

text \<open>
  Claim C1, amended: for \<open>b \<ge> 2\<close> and \<open>a \<ge> b\<close>, \<open>a\<close> equals
  \<open>add(multiply(divide(a, b), b), remainder(a, b))\<close>; for every \<open>b > 0\<close>,
  \<open>remainder(a, b) < b\<close>; and for \<open>a < b\<close> both \<open>divide(a, b)\<close> and \<open>remainder(a, b)\<close>
  are \<open>0\<close>.
\<close>

theorem divide_remainder_relation_amended:
  "(2 \<le> b \<and> b \<le> a \<longrightarrow> a = add (multiply (divide_t a b) b) (remainder a b))
   \<and> (0 < b \<longrightarrow> remainder a b < b)
   \<and> (a < b \<longrightarrow> divide_t a b = 0 \<and> remainder a b = 0)"
proof (intro conjI impI)
  assume "2 \<le> b \<and> b \<le> a"
  then show "a = add (multiply (divide_t a b) b) (remainder a b)"
    by (simp add: add_plus multiply_times divide_char remainder_char)
next
  assume "0 < b"
  then show "remainder a b < b"
    by (simp add: remainder_char)
next
  assume "a < b"
  then have "lt a b" by (simp add: lt_iff)
  then show "divide_t a b = 0"
    by (simp add: divide_t_def Cases_def Zero_def)
next
  assume "a < b"
  then show "remainder a b = 0"
    by (simp add: remainder_char)
qed

theorem divide_remainder_relation_amended_witness:
  "(2::nat) \<le> 2 \<and> (2::nat) \<le> 7
   \<and> 7 = add (multiply (divide_t 7 2) 2) (remainder 7 2) \<and> remainder 7 2 < 2
   \<and> (1::nat) < 2 \<and> divide_t 1 2 = 0 \<and> remainder 1 2 = 0"
  using divide_remainder_relation_amended [of 2 7]
    divide_remainder_relation_amended [of 2 1]
  by simp

section \<open>Primality\<close>

text \<open>
  Claim C7. The primality scenarios hold literally: \<open>isPrime(1)\<close> is true,
  \<open>isPrime(2)\<close> is true, \<open>isPrime(9)\<close> is false and \<open>isPrime(127)\<close> is true.
\<close>

theorem isPrime_scenarios:
  "isPrime 1 = True \<and> isPrime 2 = True \<and> isPrime 9 = False \<and> isPrime 127 = True"
proof -
  have "isPrime 1" by (simp add: isPrime_def Cases_def eq_iff)
  moreover have "isPrime 2" by (auto simp: isPrime_char)
  moreover have "\<not> isPrime 9"
  proof -
    have "(2::nat) \<le> 3 \<and> (3::nat) < 9 \<and> (3::nat) dvd 9" by simp
    then show ?thesis unfolding isPrime_char [of 9, simplified] by blast
  qed
  moreover have "isPrime 127"
    using no_divisor_127 by (simp add: isPrime_char)
  ultimately show ?thesis by simp
qed

text \<open>
  Claim C10. For every natural \<open>x \<ge> 2\<close>, \<open>isPrime(x)\<close> is true if and only if \<open>x\<close> has
  no divisor \<open>d\<close> with \<open>2 \<le> d < x\<close>: \<open>remainder(x, 0)\<close> and \<open>remainder(x, 1)\<close> are both
  \<open>0\<close>, so the count over \<open>z\<close> in \<open>[0, x)\<close> is \<open>2\<close> plus the number of such divisors.
\<close>

theorem isPrime_iff_no_proper_divisor:
  "2 \<le> x \<Longrightarrow>
   remainder x 0 = 0 \<and> remainder x 1 = 0
   \<and> Rec x Zero (\<lambda>z w. Cases (isZero (remainder x z)) (Succ w) w)
       = 2 + card {d. 2 \<le> d \<and> d < x \<and> d dvd x}
   \<and> isPrime x = (\<forall>d. 2 \<le> d \<and> d < x \<longrightarrow> \<not> d dvd x)"
  using count_divisors [of x] isPrime_char [of x] by (simp add: remainder_char)

theorem isPrime_iff_no_proper_divisor_witness:
  "(2::nat) \<le> 7 \<and> remainder 7 0 = 0 \<and> remainder 7 1 = 0 \<and> isPrime 7"
proof -
  have "\<forall>d\<in>{2..<7::nat}. \<not> d dvd 7" by code_simp
  then have "\<forall>d. 2 \<le> d \<and> d < 7 \<longrightarrow> \<not> d dvd (7::nat)" by simp
  with isPrime_iff_no_proper_divisor [of 7] show ?thesis by simp
qed

section \<open>Iteration and Ackermann\<close>

text \<open>
  Claim C5. Iteration composition law: for every unary numeric function \<open>f\<close>, all
  \<open>m\<close> and \<open>n\<close> and every \<open>x\<close>, \<open>iterate(f, m + n)(x)\<close> equals
  \<open>iterate(f, m)(iterate(f, n)(x))\<close>.
\<close>

theorem iterate_add:
  "iterate f (m + n) x = iterate f m (iterate f n x)"
  by (simp add: iterate_funpow funpow_add)

text \<open>
  Claim C8. The Ackermann known values hold literally: \<open>ackermann(0)(1)\<close> is \<open>2\<close>,
  \<open>ackermann(0)(2)\<close> is \<open>3\<close>, \<open>ackermann(1)(0)\<close> is \<open>2\<close> and \<open>ackermann(1)(1)\<close> is \<open>3\<close>.
\<close>

theorem ackermann_known_values:
  "ackermann 0 1 = 2 \<and> ackermann 0 2 = 3 \<and> ackermann 1 0 = 2 \<and> ackermann 1 1 = 3"
  by code_simp

text \<open>
  Claim C2 says that \<open>ackermann(0)(n)\<close> is \<open>n + 1\<close> and that \<open>ackermann(m + 1)(n)\<close> is
  \<open>iterate(ackermann(m), n)(ackermann(m)(1))\<close>, the recurrence written in the comment
  above the source function. The first half holds. The step of the source instead
  returns \<open>iterate(w, w(1))\<close>, which applies \<open>ackermann(m)\<close> to the argument \<open>n\<close> a fixed
  \<open>ackermann(m)(1)\<close> times. The two agree for \<open>m = 0\<close> and part at \<open>m = 1\<close>, \<open>n = 0\<close>:
  the source gives \<open>ackermann(2)(0) = 6\<close> where the recurrence gives \<open>3\<close>.
\<close>

theorem ackermann_recurrence_divergence:
  "ackermann 0 n = n + 1
   \<and> ackermann (Suc m) n = iterate (ackermann m) (ackermann m 1) n
   \<and> ackermann 2 0 = 6
   \<and> iterate (ackermann 1) 0 (ackermann 1 1) = 3"
proof -
  have "ackermann 0 n = n + 1"
    by (simp add: ackermann_0 Succ_def)
  moreover have "ackermann (Suc m) n = iterate (ackermann m) (ackermann m 1) n"
    by (simp add: ackermann_Suc Succ_def Zero_def)
  moreover have "ackermann 2 0 = 6"
    by code_simp
  moreover have "iterate (ackermann 1) 0 (ackermann 1 1) = 3"
    by code_simp
  ultimately show ?thesis by simp
qed

end
